theory Spec2Isabelle
  imports Complex_Main "HOL-Library.While_Combinator" "HOL-Library.Word"
begin

unbundle bit_operations_syntax

section \<open>World model (world.ts)\<close>

text \<open>
  Grid coordinates, indices and dimensions are JavaScript numbers holding integers; they are
  modelled as \<open>int\<close>. A \<open>Uint8Array\<close> is a list of naturals (its entries are 0..255), an
  \<open>Int32Array\<close> a list of integers, a \<open>Float32Array\<close> a list of reals: arithmetic on
  heights and scores is exact, so IEEE rounding, infinities and NaN are outside the model
  (except for the division in \<open>fbm\<close>, see below).
  Reading an array outside its range gives \<open>undefined\<close> (here \<open>None\<close>), writing a typed
  array outside its range is ignored.
\<close>

definition aget :: "'a list \<Rightarrow> int \<Rightarrow> 'a option" where
  "aget xs i = (if 0 \<le> i \<and> i < int (length xs) then Some (xs ! nat i) else None)"

definition aset :: "'a list \<Rightarrow> int \<Rightarrow> 'a \<Rightarrow> 'a list" where
  "aset xs i v = (if 0 \<le> i \<and> i < int (length xs) then xs[nat i := v] else xs)"

datatype GroundType = Water | Sand | Soil | Rock

datatype WorldObjectType = tree | rock

record WorldObject =
  obj_x :: int
  obj_y :: int
  obj_type :: WorldObjectType

record WorldData =
  width :: int
  height :: int
  heightmap :: "real list"
  ground :: "GroundType list"
  objects :: "WorldObject list"

record GridPoint =
  gx :: int
  gy :: int

definition getIndex :: "int \<Rightarrow> int \<Rightarrow> int \<Rightarrow> int" where
  "getIndex w x y = x + y * w"

definition inBounds :: "WorldData \<Rightarrow> int \<Rightarrow> int \<Rightarrow> bool" where
  "inBounds world x y \<longleftrightarrow> x \<ge> 0 \<and> y \<ge> 0 \<and> x < width world \<and> y < height world"


definition getGround :: "WorldData \<Rightarrow> int \<Rightarrow> int \<Rightarrow> GroundType" where
  "getGround world x y =
     (if \<not> inBounds world x y then Water
      else case aget (ground world) (getIndex (width world) x y) of
             None \<Rightarrow> Water | Some v \<Rightarrow> v)"

definition cellHasObject :: "WorldData \<Rightarrow> int \<Rightarrow> int \<Rightarrow> bool" where
  "cellHasObject world x y \<longleftrightarrow> list_ex (\<lambda>obj. obj_x obj = x \<and> obj_y obj = y) (objects world)"

text \<open>
  \<open>getSlopeAt\<close>: the largest absolute height difference to the four axis neighbours that lie
  inside the grid; a neighbour whose height reads \<open>undefined\<close> counts as the centre.
\<close>

definition slopeOffsets :: "(int \<times> int) list" where
  "slopeOffsets = [(1, 0), (-1, 0), (0, 1), (0, -1)]"

definition getSlopeAt :: "real list \<Rightarrow> int \<Rightarrow> int \<Rightarrow> int \<Rightarrow> int \<Rightarrow> real" where
  "getSlopeAt hm w h x y =
     (let center = (case aget hm (getIndex w x y) of Some c \<Rightarrow> c | None \<Rightarrow> 0)
      in fold (\<lambda>(dx, dy) maxDelta.
            let nx = x + dx; ny = y + dy in
            if nx < 0 \<or> ny < 0 \<or> nx \<ge> w \<or> ny \<ge> h then maxDelta
            else let neighbor = (case aget hm (getIndex w nx ny) of Some v \<Rightarrow> v | None \<Rightarrow> center)
                 in max maxDelta \<bar>center - neighbor\<bar>)
          slopeOffsets 0)"

section \<open>Reveal tracker and standability (gameplay.ts)\<close>

text \<open>
  One pass of the inner loop body of \<open>revealAround\<close> at offsets \<open>dx\<close>, \<open>dy\<close>. The state is
  the mask (which the source mutates in place) and the list \<open>newly\<close>. The function returns both.
\<close>

definition revealCell ::
  "WorldData \<Rightarrow> GridPoint \<Rightarrow> int \<Rightarrow> int \<Rightarrow> int \<Rightarrow> nat list \<times> int list \<Rightarrow> nat list \<times> int list" where
  "revealCell worldData center radius dy dx st =
     (case st of (revealedMask, newly) \<Rightarrow>
       if dx * dx + dy * dy > radius * radius then st
       else let x = gx center + dx; y = gy center + dy in
         if \<not> inBounds worldData x y then st
         else let index = getIndex (width worldData) x y in
           if aget revealedMask index = Some 0
           then (aset revealedMask index 1, newly @ [index])
           else st)"

definition revealAround ::
  "WorldData \<Rightarrow> nat list \<Rightarrow> GridPoint \<Rightarrow> int \<Rightarrow> nat list \<times> int list" where
  "revealAround worldData revealedMask center radius =
     fold (\<lambda>dy. fold (revealCell worldData center radius dy) [- radius..radius])
       [- radius..radius] (revealedMask, [])"

text \<open>A driver making a sequence of calls on the same mask; it keeps the mask only.\<close>

fun revealCalls :: "WorldData \<Rightarrow> nat list \<Rightarrow> (GridPoint \<times> int) list \<Rightarrow> nat list" where
  "revealCalls worldData revealedMask [] = revealedMask"
| "revealCalls worldData revealedMask ((center, radius) # calls) =
     revealCalls worldData (fst (revealAround worldData revealedMask center radius)) calls"

definition isCellStandable :: "WorldData \<Rightarrow> int \<Rightarrow> int \<Rightarrow> nat list \<Rightarrow> bool" where
  "isCellStandable worldData x y blockedMask =
     (if getGround worldData x y = Water then False
      else if aget blockedMask (getIndex (width worldData) x y) = Some 1 then False
      else if cellHasObject worldData x y then False
      else True)"

text \<open>Auxiliary notions for the proofs about \<open>revealAround\<close>.\<close>

definition revealTarget :: "WorldData \<Rightarrow> GridPoint \<Rightarrow> int \<Rightarrow> int \<times> int \<Rightarrow> int option" where
  "revealTarget worldData center radius d =
     (case d of (dy, dx) \<Rightarrow>
       if dx * dx + dy * dy > radius * radius then None
       else if \<not> inBounds worldData (gx center + dx) (gy center + dy) then None
       else Some (getIndex (width worldData) (gx center + dx) (gy center + dy)))"

definition revealStep ::
  "WorldData \<Rightarrow> GridPoint \<Rightarrow> int \<Rightarrow> int \<times> int \<Rightarrow> nat list \<times> int list \<Rightarrow> nat list \<times> int list" where
  "revealStep w c r d st = revealCell w c r (fst d) (snd d) st"

definition revealInv :: "nat list \<Rightarrow> nat list \<times> int list \<Rightarrow> bool" where
  "revealInv m0 st \<longleftrightarrow>
     length (fst st) = length m0 \<and>
     (\<forall>i. aget m0 i \<noteq> Some 0 \<longrightarrow> aget (fst st) i = aget m0 i) \<and>
     (\<forall>i. aget (fst st) i = Some 0 \<longrightarrow> aget m0 i = Some 0) \<and>
     (\<forall>i\<in>set (snd st). aget m0 i = Some 0)"

section \<open>Pathfinder (pathfinding.ts)\<close>

record PathOptions =
  maxSlope :: real
  allowDiagonal :: bool
  blockedMask :: "nat list option"

definition isCellPassable :: "WorldData \<Rightarrow> nat list \<Rightarrow> int \<Rightarrow> int \<Rightarrow> PathOptions \<Rightarrow> bool" where
  "isCellPassable world revealed x y options =
     (if \<not> inBounds world x y then False
      else let index = getIndex (width world) x y in
        if aget revealed index = Some 0 then False
        else if (case blockedMask options of
                   Some bm \<Rightarrow> aget bm index = Some 1 | None \<Rightarrow> False) then False
        else if getGround world x y = Water then False
        else if cellHasObject world x y then False
        else True)"

definition SQRT2 :: real where
  [code del]: "SQRT2 = sqrt 2"


subsection \<open>The binary heap with position tracking (class MinHeap)\<close>

text \<open>
  The object holds the array \<open>heap\<close> of node indices and a reference to the typed array
  \<open>positions\<close>, which only its methods write. Its third field \<open>scores\<close> is a reference to the
  array \<open>fScore\<close> that \<open>findPath\<close> keeps writing, so every method takes the current contents
  of that array as its first argument.
\<close>

record MinHeap =
  heap :: "int list"
  positions :: "int list"

definition MinHeap_swap :: "int \<Rightarrow> int \<Rightarrow> MinHeap \<Rightarrow> MinHeap" where
  "MinHeap_swap a b h =
     (case aget (heap h) a of None \<Rightarrow> h | Some temp \<Rightarrow>
      case aget (heap h) b of None \<Rightarrow> h | Some other \<Rightarrow>
        h\<lparr>heap := aset (aset (heap h) a other) b temp,
          positions := aset (aset (positions h) other a) temp b\<rparr>)"



text \<open>
  One of the two comparisons of \<open>bubbleDown\<close>: the child at index \<open>child\<close> replaces the
  current candidate when it lies inside the heap and its score is strictly smaller.
\<close>

definition pickSmaller ::
  "real list \<Rightarrow> MinHeap \<Rightarrow> int \<Rightarrow> int \<Rightarrow> int \<times> real \<Rightarrow> int \<times> real" where
  "pickSmaller scores h len child cand =
     (if child < len then
        case aget (heap h) child of None \<Rightarrow> cand | Some childNode \<Rightarrow>
        case aget scores childNode of None \<Rightarrow> cand | Some childScore \<Rightarrow>
          if childScore < snd cand then (child, childScore) else cand
      else cand)"

function bubbleDownLoop :: "real list \<Rightarrow> int \<Rightarrow> int \<Rightarrow> MinHeap \<Rightarrow> MinHeap" where
  "bubbleDownLoop scores len i h =
     (let left = i * 2 + 1; right = i * 2 + 2 in
      case aget (heap h) i of None \<Rightarrow> h | Some smallestNode \<Rightarrow>
      case aget scores smallestNode of None \<Rightarrow> h | Some smallestScore \<Rightarrow>
        let smallest = fst (pickSmaller scores h len right
                              (pickSmaller scores h len left (i, smallestScore)))
        in if smallest = i then h
           else bubbleDownLoop scores len smallest (MinHeap_swap i smallest h))"
  by pat_completeness auto
termination
proof (relation "measure (\<lambda>(scores, len, i, h). nat (len - i))", goal_cases)
  case 1
  show ?case by simp
next
  case (2 scores len i h left right node score smallest)
  have i0: "0 \<le> i" using 2(3) by (simp add: aget_def split: if_splits)
  have "smallest = i \<or> (smallest = left \<and> left < len) \<or> (smallest = right \<and> right < len)"
    unfolding 2(5) by (simp add: pickSmaller_def split: option.splits)
  with 2(6) 2(1) 2(2) i0 show ?case by auto
qed

declare bubbleDownLoop.simps [simp del]

definition bubbleDown :: "real list \<Rightarrow> int \<Rightarrow> MinHeap \<Rightarrow> MinHeap" where
  "bubbleDown scores index h = bubbleDownLoop scores (int (length (heap h))) index h"



definition MinHeap_pop :: "real list \<Rightarrow> MinHeap \<Rightarrow> int \<times> MinHeap" where
  "MinHeap_pop scores h =
     (case heap h of
        [] \<Rightarrow> (- 1, h)
      | rootNode # rest \<Rightarrow>
          let lastNode = last (heap h);
              h1 = h\<lparr>heap := butlast (heap h)\<rparr>;
              h2 = h1\<lparr>positions := aset (positions h1) rootNode (- 1)\<rparr>
          in if length (heap h2) > 0
             then let h3 = h2\<lparr>heap := aset (heap h2) 0 lastNode\<rparr>;
                      h4 = h3\<lparr>positions := aset (positions h3) lastNode 0\<rparr>
                  in (rootNode, bubbleDown scores 0 h4)
             else (rootNode, h2))"

subsection \<open>The search\<close>













subsection \<open>Invariants used in the proofs about the pathfinder\<close>











subsection \<open>Notions for the optimality of the search\<close>








text \<open>
  The cost of a step between two cells given by their indices (\<open>Math.SQRT2\<close> when both
  coordinates change, 1 otherwise), walks of valid steps and their cost, and the heuristic
  of a cell given by its index.
\<close>

definition stepCost :: "int \<Rightarrow> int \<Rightarrow> int \<Rightarrow> real" where
  "stepCost w p n = (if p mod w \<noteq> n mod w \<and> p div w \<noteq> n div w then SQRT2 else 1)"

















section \<open>Noise combinators and the seeded generator (math.ts)\<close>

text \<open>
  The one place where a non-finite number can arise is the division by \<open>normalization\<close>.
  \<open>js_div\<close> makes it explicit: \<open>None\<close> stands for the non-finite quotient that IEEE
  division gives for a zero divisor (NaN for \<open>0 / 0\<close>, an infinity otherwise). The
  arithmetic that follows a non-finite value keeps it non-finite.
\<close>

definition js_div :: "real \<Rightarrow> real \<Rightarrow> real option" where
  "js_div a b = (if b = 0 then None else Some (a / b))"

text \<open>
  The octave loop of \<open>fbm\<close>, \<open>for (let i = 0; i < octaves; i += 1)\<close>, on the state
  \<open>(amplitude, frequency, sum, normalization)\<close>.
\<close>

function fbmLoop ::
  "(real \<Rightarrow> real \<Rightarrow> real) \<Rightarrow> real \<Rightarrow> real \<Rightarrow> int \<Rightarrow> real \<Rightarrow> real \<Rightarrow> int \<Rightarrow>
   real \<times> real \<times> real \<times> real \<Rightarrow> real \<times> real \<times> real \<times> real" where
  "fbmLoop noise2D x y octaves lacunarity gain i st =
     (if i < octaves then
        (case st of (amplitude, frequency, sumv, normalization) \<Rightarrow>
           fbmLoop noise2D x y octaves lacunarity gain (i + 1)
             (amplitude * gain, frequency * lacunarity,
              sumv + amplitude * noise2D (x * frequency) (y * frequency),
              normalization + amplitude))
      else st)"
  by pat_completeness auto
termination
  by (relation "measure (\<lambda>(noise2D, x, y, octaves, lacunarity, gain, i, st). nat (octaves - i))") auto

declare fbmLoop.simps [simp del]

definition fbm ::
  "(real \<Rightarrow> real \<Rightarrow> real) \<Rightarrow> real \<Rightarrow> real \<Rightarrow> int \<Rightarrow> real \<Rightarrow> real \<Rightarrow> real option" where
  "fbm noise2D x y octaves lacunarity gain =
     (case fbmLoop noise2D x y octaves lacunarity gain 0 (0.5, 1, 0, 0) of
        (amplitude, frequency, sumv, normalization) \<Rightarrow>
          (case js_div sumv normalization of
             None \<Rightarrow> None
           | Some v \<Rightarrow> Some (v * 0.5 + 0.5)))"

function ridgedLoop ::
  "(real \<Rightarrow> real \<Rightarrow> real) \<Rightarrow> real \<Rightarrow> real \<Rightarrow> int \<Rightarrow> real \<Rightarrow> real \<Rightarrow> int \<Rightarrow>
   real \<times> real \<times> real \<times> real \<Rightarrow> real \<times> real \<times> real \<times> real" where
  "ridgedLoop noise2D x y octaves lacunarity gain i st =
     (if i < octaves then
        (case st of (amplitude, frequency, sumv, normalization) \<Rightarrow>
           let n = noise2D (x * frequency) (y * frequency);
               ridge = 1 - \<bar>n\<bar>;
               sharp = ridge * ridge
           in ridgedLoop noise2D x y octaves lacunarity gain (i + 1)
                (amplitude * gain, frequency * lacunarity,
                 sumv + sharp * amplitude,
                 normalization + amplitude))
      else st)"
  by pat_completeness auto
termination
  by (relation "measure (\<lambda>(noise2D, x, y, octaves, lacunarity, gain, i, st). nat (octaves - i))") auto

declare ridgedLoop.simps [simp del]

definition ridgedFbm ::
  "(real \<Rightarrow> real \<Rightarrow> real) \<Rightarrow> real \<Rightarrow> real \<Rightarrow> int \<Rightarrow> real \<Rightarrow> real \<Rightarrow> real option" where
  "ridgedFbm noise2D x y octaves lacunarity gain =
     (case ridgedLoop noise2D x y octaves lacunarity gain 0 (0.5, 1, 0, 0) of
        (amplitude, frequency, sumv, normalization) \<Rightarrow>
          if normalization > 0 then js_div sumv normalization else Some 0)"

subsection \<open>mulberry32\<close>

text \<open>
  \<open>mulberry32(seed)\<close> returns a closure over its own variable \<open>t\<close>. The variables of all
  closures created so far form the store; a generator is the address of its variable.
  \<open>t\<close> is a JavaScript number that grows by \<open>0x6d2b79f5\<close> per call: the sum is exact below
  \<open>2^53\<close> and is rounded to the nearest double, ties to even, from there on (\<open>toDouble\<close>,
  for a non-negative integer; \<open>dropped\<close> is the number of low bits that the 53-bit
  significand cannot hold). Every other operation of the body is a 32-bit one.
\<close>

function dropped :: "int \<Rightarrow> nat" where
  "dropped n = (if n < 9007199254740992 then 0 else Suc (dropped (n div 2)))"
  by pat_completeness auto
termination
  by (relation "measure nat") auto

declare dropped.simps [simp del]

definition toDouble :: "int \<Rightarrow> int" where
  "toDouble n =
     (let e = dropped n; q = n div 2 ^ e; r = n mod 2 ^ e
      in if 2 * r > 2 ^ e \<or> (2 * r = 2 ^ e \<and> odd q) then (q + 1) * 2 ^ e else q * 2 ^ e)"

type_synonym rng_store = "int list"

definition mulberry32 :: "int \<Rightarrow> rng_store \<Rightarrow> int \<times> rng_store" where
  "mulberry32 seed st = (int (length st), st @ [seed mod 4294967296])"

definition mulberry32_body :: "int \<Rightarrow> real \<times> int" where
  "mulberry32_body t0 =
     (let t = toDouble (t0 + 0x6d2b79f5);
          tw = (word_of_int t :: 32 word);
          r = (tw XOR drop_bit 15 tw) * (1 OR tw);
          r = r XOR (r + (r XOR drop_bit 7 r) * (61 OR r))
      in (real (unat (r XOR drop_bit 14 r)) / 4294967296, t))"

text \<open>Calling the generator at address \<open>g\<close>.\<close>

definition callRng :: "int \<Rightarrow> rng_store \<Rightarrow> real \<times> rng_store" where
  "callRng g st =
     (case aget st g of
        Some t \<Rightarrow> (case mulberry32_body t of (v, t') \<Rightarrow> (v, aset st g t'))
      | None \<Rightarrow> (0, st))"

section \<open>World generator (world.ts)\<close>

record WorldGenConfig =
  cfg_width :: int
  cfg_height :: int
  seed :: int
  seaLevel :: real
  mountainHeight :: real
  slopeRock :: real
  sandHeight :: real
  sandChance :: real
  treeSlopeMax :: real
  forestScale :: real
  forestThreshold :: real
  treeChance :: real
  rockSlopeMax :: real
  rockChance :: real

text \<open>
  \<open>createNoise2D\<close> belongs to the package simplex-noise. It is taken as a parameter
  \<open>noiseOf\<close>: from the variable \<open>t\<close> of the generator it is given, the noise function it
  builds and the value of \<open>t\<close> it leaves behind.
\<close>

definition createNoise2D ::
  "(int \<Rightarrow> (real \<Rightarrow> real \<Rightarrow> real) \<times> int) \<Rightarrow> int \<Rightarrow> rng_store \<Rightarrow> (real \<Rightarrow> real \<Rightarrow> real) \<times> rng_store" where
  "createNoise2D noiseOf g st =
     (case aget st g of
        Some t \<Rightarrow> (case noiseOf t of (noise, t') \<Rightarrow> (noise, aset st g t'))
      | None \<Rightarrow> (\<lambda>x y. 0, st))"

definition isNearSea :: "real list \<Rightarrow> int \<Rightarrow> int \<Rightarrow> int \<Rightarrow> int \<Rightarrow> real \<Rightarrow> int \<Rightarrow> bool" where
  "isNearSea hm w h x y sea radius =
     list_ex (\<lambda>dy. list_ex (\<lambda>dx.
        if dx = 0 \<and> dy = 0 then False
        else let nx = x + dx; ny = y + dy in
          if nx < 0 \<or> ny < 0 \<or> nx \<ge> w \<or> ny \<ge> h then False
          else (case aget hm (getIndex w nx ny) of Some v \<Rightarrow> v | None \<Rightarrow> 0) < sea)
        [- radius..radius]) [- radius..radius]"

text \<open>The three loop bodies of \<open>generateWorld\<close>, each for the cell \<open>(x, y)\<close>.\<close>

definition heightCell ::
  "WorldGenConfig \<Rightarrow> (real \<Rightarrow> real \<Rightarrow> real) \<Rightarrow> int \<Rightarrow> int \<Rightarrow> real list \<Rightarrow> real list" where
  "heightCell config heightNoise y x hm =
     (let idx = getIndex (cfg_width config) x y;
          baseScale = 1 / 80
      in case fbm heightNoise (real_of_int x * baseScale) (real_of_int y * baseScale) 5 2 0.5 of
           Some h \<Rightarrow> aset hm idx (h powr 1.05)
         | None \<Rightarrow> hm)"

definition groundCell ::
  "WorldGenConfig \<Rightarrow> real list \<Rightarrow> int \<Rightarrow> int \<Rightarrow> int \<Rightarrow>
   GroundType list \<times> rng_store \<Rightarrow> GroundType list \<times> rng_store" where
  "groundCell config hm objectRng y x st =
     (case st of (grd, store) \<Rightarrow>
      let idx = getIndex (cfg_width config) x y;
          h = (case aget hm idx of Some v \<Rightarrow> v | None \<Rightarrow> 0)
      in if h < seaLevel config then (aset grd idx Water, store)
         else let slope = getSlopeAt hm (cfg_width config) (cfg_height config) x y in
           if h > mountainHeight config \<or> slope > slopeRock config then (aset grd idx Rock, store)
           else let nearWater = isNearSea hm (cfg_width config) (cfg_height config) x y (seaLevel config) 2 in
             if nearWater \<and> h < seaLevel config + sandHeight config then
               (case callRng objectRng store of (roll, store') \<Rightarrow>
                  if roll < sandChance config then (aset grd idx Sand, store')
                  else (aset grd idx Soil, store'))
             else (aset grd idx Soil, store))"

definition objectCell ::
  "WorldGenConfig \<Rightarrow> real list \<Rightarrow> GroundType list \<Rightarrow> (real \<Rightarrow> real \<Rightarrow> real) \<Rightarrow> int \<Rightarrow> int \<Rightarrow> int \<Rightarrow>
   WorldObject list \<times> rng_store \<Rightarrow> WorldObject list \<times> rng_store" where
  "objectCell config hm grd forestNoise objectRng y x st =
     (let idx = getIndex (cfg_width config) x y in
      case aget grd idx of None \<Rightarrow> st | Some groundType \<Rightarrow>
      let h = (case aget hm idx of Some v \<Rightarrow> v | None \<Rightarrow> 0);
          slope = getSlopeAt hm (cfg_width config) (cfg_height config) x y;
          st1 = (if groundType = Soil \<and> slope < treeSlopeMax config \<and> h > seaLevel config + 0.02 then
                   (case fbm forestNoise (real_of_int x * forestScale config)
                           (real_of_int y * forestScale config) 3 2 0.5 of
                      None \<Rightarrow> st
                    | Some patch \<Rightarrow>
                        if patch > forestThreshold config then
                          (case callRng objectRng (snd st) of (roll, store') \<Rightarrow>
                             if roll < treeChance config
                             then (fst st @ [\<lparr>obj_x = x, obj_y = y, obj_type = tree\<rparr>], store')
                             else (fst st, store'))
                        else st)
                 else st)
      in if groundType = Rock \<and> slope < rockSlopeMax config then
           (case callRng objectRng (snd st1) of (roll, store') \<Rightarrow>
              if roll < rockChance config
              then (fst st1 @ [\<lparr>obj_x = x, obj_y = y, obj_type = rock\<rparr>], store')
              else (fst st1, store'))
         else st1)"

text \<open>The scan \<open>for y (for x ...)\<close> shared by the three phases.\<close>

definition scan :: "int \<Rightarrow> int \<Rightarrow> (int \<Rightarrow> int \<Rightarrow> 's \<Rightarrow> 's) \<Rightarrow> 's \<Rightarrow> 's" where
  "scan w h body st = fold (\<lambda>y. fold (body y) [0..w - 1]) [0..h - 1] st"

datatype error = RangeError

text \<open>
  \<open>new Float32Array(n)\<close> and \<open>new Uint8Array(n)\<close> throw a \<open>RangeError\<close> when the length is
  negative, when the array would take more than \<open>2^53 - 1\<close> bytes, and when the host cannot
  create a data block of that size. What the host can create is the parameter
  \<open>hostCreates\<close>, a predicate on the number of bytes.
\<close>

definition createsArray :: "(int \<Rightarrow> bool) \<Rightarrow> int \<Rightarrow> int \<Rightarrow> bool" where
  "createsArray hostCreates elementSize n \<longleftrightarrow>
     0 \<le> n \<and> elementSize * n \<le> 9007199254740991 \<and> hostCreates (elementSize * n)"

text \<open>
  \<open>generateWorld\<close> in the store of generator variables. The two typed arrays are created
  first: when either cannot be created the call ends with a \<open>RangeError\<close> and the store is
  as it was.
\<close>

definition generateWorld ::
  "(int \<Rightarrow> (real \<Rightarrow> real \<Rightarrow> real) \<times> int) \<Rightarrow> (int \<Rightarrow> bool) \<Rightarrow> WorldGenConfig \<Rightarrow> rng_store \<Rightarrow>
   (error + WorldData) \<times> rng_store" where
  "generateWorld noiseOf hostCreates config st =
     (if createsArray hostCreates 4 (cfg_width config * cfg_height config) \<and>
         createsArray hostCreates 1 (cfg_width config * cfg_height config)
      then
        let n = nat (cfg_width config * cfg_height config);
            heightmap0 = replicate n 0;
            ground0 = replicate n Water;
            (heightRng, st1) = mulberry32 (seed config) st;
            (heightNoise, st2) = createNoise2D noiseOf heightRng st1;
            (forestRng, st3) = mulberry32 (seed config + 1337) st2;
            (forestNoise, st4) = createNoise2D noiseOf forestRng st3;
            (objectRng, st5) = mulberry32 (seed config + 9001) st4;
            hm = scan (cfg_width config) (cfg_height config) (heightCell config heightNoise) heightmap0;
            (grd, st6) = scan (cfg_width config) (cfg_height config)
                           (groundCell config hm objectRng) (ground0, st5);
            (objs, st7) = scan (cfg_width config) (cfg_height config)
                            (objectCell config hm grd forestNoise objectRng) ([], st6)
        in (Inr \<lparr>width = cfg_width config, height = cfg_height config,
                  heightmap = hm, ground = grd, objects = objs\<rparr>, st7)
      else (Inl RangeError, st))"
subsection \<open>The classification rule in the words of the specification\<close>

definition heightAt :: "real list \<Rightarrow> int \<Rightarrow> int \<Rightarrow> int \<Rightarrow> real" where
  "heightAt hm w x y = (case aget hm (getIndex w x y) of Some v \<Rightarrow> v | None \<Rightarrow> 0)"

text \<open>Some other cell of the grid within Chebyshev distance 2 lies below the sea level.\<close>

definition nearWater :: "real list \<Rightarrow> int \<Rightarrow> int \<Rightarrow> int \<Rightarrow> int \<Rightarrow> real \<Rightarrow> bool" where
  "nearWater hm w h x y sea \<longleftrightarrow>
     (\<exists>nx \<in> {x - 2..x + 2}. \<exists>ny \<in> {y - 2..y + 2}.
        (nx, ny) \<noteq> (x, y) \<and> 0 \<le> nx \<and> nx < w \<and> 0 \<le> ny \<and> ny < h \<and> heightAt hm w nx ny < sea)"

text \<open>
  The priority order: Water below the sea level; otherwise Rock above the mountain height
  or on a slope steeper than \<open>slopeRock\<close>; otherwise Sand near water, below
  \<open>seaLevel + sandHeight\<close> and with a roll below \<open>sandChance\<close>; otherwise Soil.
\<close>

definition classify :: "WorldGenConfig \<Rightarrow> real list \<Rightarrow> int \<Rightarrow> int \<Rightarrow> real \<Rightarrow> GroundType" where
  "classify config hm x y roll =
     (let h = heightAt hm (cfg_width config) x y;
          slope = getSlopeAt hm (cfg_width config) (cfg_height config) x y
      in if h < seaLevel config then Water
         else if h > mountainHeight config \<or> slope > slopeRock config then Rock
         else if nearWater hm (cfg_width config) (cfg_height config) x y (seaLevel config) \<and>
                 h < seaLevel config + sandHeight config \<and> roll < sandChance config then Sand
         else Soil)"

text \<open>
  The roll of a cell. The Sand rule draws from the generator \<open>mulberry32(seed + 9001)\<close>, and
  only for a cell that is neither Water nor Rock, lies near water and is below
  \<open>seaLevel + sandHeight\<close> (\<open>needsRoll\<close>, for a cell \<open>(y, x)\<close>). The scan visits the rows in
  order and each row from left to right, so the cells visited before \<open>(x, y)\<close> are the rows
  above it and the cells to its left (\<open>cellsBefore\<close>). The roll of \<open>(x, y)\<close> is the value
  that the generator returns after as many calls as there are cells with a roll before it.
\<close>

definition needsRoll :: "WorldGenConfig \<Rightarrow> real list \<Rightarrow> int \<times> int \<Rightarrow> bool" where
  "needsRoll config hm c \<longleftrightarrow>
     (let x = snd c; y = fst c;
          h = heightAt hm (cfg_width config) x y;
          slope = getSlopeAt hm (cfg_width config) (cfg_height config) x y
      in \<not> h < seaLevel config \<and> \<not> (h > mountainHeight config \<or> slope > slopeRock config) \<and>
         nearWater hm (cfg_width config) (cfg_height config) x y (seaLevel config) \<and>
         h < seaLevel config + sandHeight config)"

definition cellsBefore :: "int \<Rightarrow> int \<Rightarrow> int \<Rightarrow> (int \<times> int) list" where
  "cellsBefore w x y = List.product [0..y - 1] [0..w - 1] @ map (Pair y) [0..x - 1]"

definition nthRoll :: "int \<Rightarrow> nat \<Rightarrow> real" where
  "nthRoll sd k =
     fst (mulberry32_body (((\<lambda>t. snd (mulberry32_body t)) ^^ k) (sd mod 4294967296)))"

definition rollAt :: "WorldGenConfig \<Rightarrow> real list \<Rightarrow> int \<Rightarrow> int \<Rightarrow> real" where
  "rollAt config hm x y =
     nthRoll (seed config + 9001)
       (length (filter (needsRoll config hm) (cellsBefore (cfg_width config) x y)))"

text \<open>
  Two generators, each in its own store, are in step when their variables hold the same
  value.
\<close>

definition inStep :: "int \<Rightarrow> int \<Rightarrow> rng_store \<Rightarrow> rng_store \<Rightarrow> bool" where
  "inStep g g' st st' \<longleftrightarrow> (\<exists>t. aget st g = Some t \<and> aget st' g' = Some t)"

text \<open>
  The three phases of \<open>generateWorld\<close>, from the two noise functions and the generator of the
  rolls.
\<close>

definition phases ::
  "WorldGenConfig \<Rightarrow> (real \<Rightarrow> real \<Rightarrow> real) \<Rightarrow> (real \<Rightarrow> real \<Rightarrow> real) \<Rightarrow> int \<Rightarrow> rng_store \<Rightarrow> WorldData" where
  "phases config heightNoise forestNoise objectRng st =
     (let n = nat (cfg_width config * cfg_height config);
          hm = scan (cfg_width config) (cfg_height config) (heightCell config heightNoise) (replicate n 0);
          gs = scan (cfg_width config) (cfg_height config)
                 (groundCell config hm objectRng) (replicate n Water, st);
          os = scan (cfg_width config) (cfg_height config)
                 (objectCell config hm (fst gs) forestNoise objectRng) ([], snd gs)
      in \<lparr>width = cfg_width config, height = cfg_height config,
          heightmap = hm, ground = fst gs, objects = fst os\<rparr>)"

section \<open>Array access\<close>

lemma aget_aset:
  "aget (aset xs i v) j = (if j = i \<and> 0 \<le> i \<and> i < int (length xs) then Some v else aget xs j)"
  by (auto simp: aget_def aset_def)

lemma aget_SomeD: "aget xs i = Some v \<Longrightarrow> 0 \<le> i \<and> i < int (length xs)"
  by (simp add: aget_def split: if_splits)

lemma aget_aset_same: "aget xs i = Some v \<Longrightarrow> aget (aset xs i u) i = Some u"
  by (simp add: aget_aset aget_SomeD)

lemma aget_aset_other: "j \<noteq> i \<Longrightarrow> aget (aset xs i v) j = aget xs j"
  by (simp add: aget_aset)

lemma length_aset [simp]: "length (aset xs i v) = length xs"
  by (simp add: aset_def)

lemma aget_in_range: "0 \<le> i \<Longrightarrow> i < int (length xs) \<Longrightarrow> aget xs i = Some (xs ! nat i)"
  by (simp add: aget_def)


lemma fold_nested_product:
  "fold (\<lambda>a. fold (f a) bs) as st = fold (\<lambda>(a, b). f a b) (List.product as bs) st"
proof (induction as arbitrary: st)
  case Nil show ?case by simp
next
  case (Cons a as)
  have "fold (\<lambda>(a, b). f a b) (map (Pair a) bs) st = fold (f a) bs st" for st
    by (induction bs arbitrary: st) simp_all
  with Cons show ?case by simp
qed

section \<open>Properties of the reveal tracker\<close>

lemma revealCell_target:
  "revealCell w c r dy dx (m, n) =
     (case revealTarget w c r (dy, dx) of
        None \<Rightarrow> (m, n)
      | Some i \<Rightarrow> if aget m i = Some 0 then (aset m i 1, n @ [i]) else (m, n))"
  by (simp add: revealCell_def revealTarget_def Let_def)

lemma revealAround_fold:
  "revealAround w m c r = fold (revealStep w c r) (List.product [- r..r] [- r..r]) (m, [])"
  unfolding revealAround_def fold_nested_product revealStep_def
  by (simp add: case_prod_beta')

lemma revealStep_cases:
  "revealStep w c r d st = st \<or>
   (\<exists>i. aget (fst st) i = Some 0 \<and> revealStep w c r d st = (aset (fst st) i 1, snd st @ [i]))"
  by (cases st; cases d) (simp add: revealStep_def revealCell_target split: option.splits)

lemma revealStep_inv:
  assumes "revealInv m0 st"
  shows "revealInv m0 (revealStep w c r d st)"
proof -
  consider "revealStep w c r d st = st"
    | i where "aget (fst st) i = Some 0" "revealStep w c r d st = (aset (fst st) i 1, snd st @ [i])"
    using revealStep_cases by blast
  then show ?thesis
  proof cases
    case 1
    with assms show ?thesis by simp
  next
    case 2
    from assms have len: "length (fst st) = length m0"
      and keep: "\<And>j. aget m0 j \<noteq> Some 0 \<Longrightarrow> aget (fst st) j = aget m0 j"
      and zero: "\<And>j. aget (fst st) j = Some 0 \<Longrightarrow> aget m0 j = Some 0"
      and new: "\<And>j. j \<in> set (snd st) \<Longrightarrow> aget m0 j = Some 0"
      unfolding revealInv_def by blast+
    have i0: "aget m0 i = Some 0" using zero 2(1) by blast
    have a: "aget (aset (fst st) i 1) j = aget m0 j" if "aget m0 j \<noteq> Some 0" for j
    proof -
      from that i0 have "j \<noteq> i" by auto
      then show ?thesis using keep [OF that] by (simp add: aget_aset)
    qed
    have b: "aget m0 j = Some 0" if "aget (aset (fst st) i 1) j = Some 0" for j
    proof (cases "j = i")
      case True then show ?thesis using i0 by simp
    next
      case False
      with that have "aget (fst st) j = Some 0" by (simp add: aget_aset)
      then show ?thesis by (rule zero)
    qed
    have c: "aget m0 j = Some 0" if "j \<in> set (snd st @ [i])" for j
      using that new i0 by auto
    show ?thesis unfolding revealInv_def 2(2) fst_conv snd_conv
    proof (intro conjI allI impI ballI)
      show "length (aset (fst st) i 1) = length m0" using len by simp
    next
      fix j assume "aget m0 j \<noteq> Some 0"
      then show "aget (aset (fst st) i 1) j = aget m0 j" by (rule a)
    next
      fix j assume "aget (aset (fst st) i 1) j = Some 0"
      then show "aget m0 j = Some 0" by (rule b)
    next
      fix j assume "j \<in> set (snd st @ [i])"
      then show "aget m0 j = Some 0" by (rule c)
    qed
  qed
qed

lemma revealFold_inv: "revealInv m0 st \<Longrightarrow> revealInv m0 (fold (revealStep w c r) ds st)"
  by (induction ds arbitrary: st) (simp_all add: revealStep_inv)

lemma revealAround_inv: "revealInv m (revealAround w m c r)"
  unfolding revealAround_fold by (rule revealFold_inv) (simp add: revealInv_def)

lemma revealAround_keeps:
  assumes "aget m i = Some 1"
  shows "aget (fst (revealAround w m c r)) i = Some 1"
proof -
  from assms have "aget m i \<noteq> Some 0" by simp
  moreover have "\<forall>i. aget m i \<noteq> Some 0 \<longrightarrow> aget (fst (revealAround w m c r)) i = aget m i"
    using revealAround_inv [of m w c r] unfolding revealInv_def by blast
  ultimately show ?thesis using assms by metis
qed

lemma revealAround_newly: "j \<in> set (snd (revealAround w m c r)) \<Longrightarrow> aget m j = Some 0"
  using revealAround_inv [of m w c r] unfolding revealInv_def by blast

lemma revealCalls_mono: "aget m i = Some 1 \<Longrightarrow> aget (revealCalls w m calls) i = Some 1"
proof (induction calls arbitrary: m)
  case Nil then show ?case by simp
next
  case (Cons a calls)
  obtain c r where a: "a = (c, r)" by (cases a)
  from Cons.prems have "aget (fst (revealAround w m c r)) i = Some 1"
    by (rule revealAround_keeps)
  then show ?case using Cons.IH a by simp
qed

text \<open>
  Claim C6 (reveal monotonicity). A mask entry that is 1 is still 1 after any sequence of
  \<open>revealAround\<close> calls (any centres and radii) and after any single call, and every index in
  the list a call returns had the mask entry 0 immediately before that call.
\<close>

theorem revealAround_monotone:
  "(aget revealedMask i = Some 1 \<longrightarrow> aget (revealCalls worldData revealedMask calls) i = Some 1) \<and>
   (aget revealedMask i = Some 1 \<longrightarrow>
      aget (fst (revealAround worldData revealedMask center radius)) i = Some 1) \<and>
   (\<forall>j \<in> set (snd (revealAround worldData revealedMask center radius)). aget revealedMask j = Some 0)"
  by (intro conjI impI ballI revealCalls_mono revealAround_keeps revealAround_newly)

theorem revealAround_monotone_witness:
  "aget [0, 0, 0, 0, 1, 0] 4 = Some (1::nat) \<and>
   aget (revealCalls \<lparr>width = 3, height = 2, heightmap = [], ground = [], objects = []\<rparr>
           [0, 0, 0, 0, 1, 0] [(\<lparr>gx = 1, gy = 1\<rparr>, 1), (\<lparr>gx = 0, gy = 0\<rparr>, 2)]) 4 = Some 1 \<and>
   aget (fst (revealAround \<lparr>width = 3, height = 2, heightmap = [], ground = [], objects = []\<rparr>
           [0, 0, 0, 0, 1, 0] \<lparr>gx = 1, gy = 1\<rparr> 1)) 4 = Some 1 \<and>
   3 \<in> set (snd (revealAround \<lparr>width = 3, height = 2, heightmap = [], ground = [], objects = []\<rparr>
           [0, 0, 0, 0, 1, 0] \<lparr>gx = 1, gy = 1\<rparr> 1)) \<and>
   aget [0, 0, 0, 0, 1, 0] 3 = Some (0::nat)"
proof -
  let ?w = "\<lparr>width = 3, height = 2, heightmap = [], ground = [], objects = []\<rparr>"
  let ?m = "[0, 0, 0, 0, 1, 0] :: nat list"
  have h: "aget ?m 4 = Some 1" by (simp add: aget_def)
  have n: "3 \<in> set (snd (revealAround ?w ?m \<lparr>gx = 1, gy = 1\<rparr> 1))" by code_simp
  from revealAround_monotone [of ?m 4 ?w "[(\<lparr>gx = 1, gy = 1\<rparr>, 1), (\<lparr>gx = 0, gy = 0\<rparr>, 2)]" "\<lparr>gx = 1, gy = 1\<rparr>" 1] h n
  show ?thesis by blast
qed

text \<open>Lemmas for idempotence: a nonzero entry stays nonzero, and a visited cell is nonzero.\<close>

lemma revealStep_nonzero:
  assumes "aget (fst st) i \<noteq> Some 0"
  shows "aget (fst (revealStep w c r d st)) i \<noteq> Some 0"
proof -
  consider "revealStep w c r d st = st"
    | k where "aget (fst st) k = Some 0" "revealStep w c r d st = (aset (fst st) k 1, snd st @ [k])"
    using revealStep_cases by blast
  then show ?thesis
  proof cases
    case 1 with assms show ?thesis by simp
  next
    case 2
    then show ?thesis using assms by (cases "i = k") (simp_all add: aget_aset)
  qed
qed

lemma revealFold_nonzero:
  "aget (fst st) i \<noteq> Some 0 \<Longrightarrow> aget (fst (fold (revealStep w c r) ds st)) i \<noteq> Some 0"
  by (induction ds arbitrary: st) (simp_all add: revealStep_nonzero)

lemma revealStep_done:
  "revealTarget w c r d = Some i \<Longrightarrow> aget (fst (revealStep w c r d st)) i \<noteq> Some 0"
  by (cases st; cases d) (simp add: revealStep_def revealCell_target aget_aset_same)

lemma revealFold_done:
  "d \<in> set ds \<Longrightarrow> revealTarget w c r d = Some i \<Longrightarrow>
   aget (fst (fold (revealStep w c r) ds st)) i \<noteq> Some 0"
proof (induction ds arbitrary: st)
  case Nil then show ?case by simp
next
  case (Cons a ds)
  show ?case
  proof (cases "d = a")
    case True
    with Cons.prems have "aget (fst (revealStep w c r a st)) i \<noteq> Some 0"
      by (simp add: revealStep_done)
    then show ?thesis by (simp add: revealFold_nonzero)
  next
    case False
    with Cons show ?thesis by simp
  qed
qed

lemma revealFold_idle:
  "(\<forall>d\<in>set ds. \<forall>i. revealTarget w c r d = Some i \<longrightarrow> aget (fst st) i \<noteq> Some 0) \<Longrightarrow>
   fold (revealStep w c r) ds st = st"
proof (induction ds)
  case Nil show ?case by simp
next
  case (Cons a ds)
  have "revealStep w c r a st = st"
  proof (cases "revealTarget w c r a")
    case None
    then show ?thesis by (cases st; cases a) (simp add: revealStep_def revealCell_target)
  next
    case (Some i)
    with Cons.prems have "aget (fst st) i \<noteq> Some 0" by simp
    with Some show ?thesis by (cases st; cases a) (simp add: revealStep_def revealCell_target)
  qed
  with Cons show ?case by simp
qed

text \<open>
  Claim C7 (reveal idempotence). A second call of \<open>revealAround\<close> with the same centre and
  radius, on the mask the first call left, returns the empty list and leaves the mask as
  it is.
\<close>

theorem revealAround_idempotent:
  "revealAround worldData (fst (revealAround worldData revealedMask center radius)) center radius
     = (fst (revealAround worldData revealedMask center radius), [])"
  unfolding revealAround_fold
proof (rule revealFold_idle, intro ballI allI impI)
  fix d i
  assume "d \<in> set (List.product [- radius..radius] [- radius..radius])"
    and "revealTarget worldData center radius d = Some i"
  then have "aget (fst (fold (revealStep worldData center radius)
      (List.product [- radius..radius] [- radius..radius]) (revealedMask, []))) i \<noteq> Some 0"
    by (rule revealFold_done)
  then show "aget (fst (fst (fold (revealStep worldData center radius)
      (List.product [- radius..radius] [- radius..radius]) (revealedMask, [])), [])) i \<noteq> Some 0"
    by simp
qed

section \<open>The two cell predicates\<close>

lemma getGround_not_Water_inBounds: "getGround w x y \<noteq> Water \<Longrightarrow> inBounds w x y"
  by (simp add: getGround_def split: if_splits)

text \<open>
  Claim C8, as amended. \<open>isCellPassable\<close> holds exactly for the cells that are in bounds,
  revealed (the mask entry is not 0), not blocked (when a blocked mask is given, its entry is
  not 1), whose ground is not Water and that carry no object. \<open>isCellStandable\<close> takes no
  reveal mask: it holds exactly for the cells that are in bounds, not blocked, whose
  ground is not Water and that carry no object.
\<close>

theorem passable_standable_conditions:
  "(isCellPassable world revealed x y options \<longleftrightarrow>
      inBounds world x y \<and>
      aget revealed (getIndex (width world) x y) \<noteq> Some 0 \<and>
      (case blockedMask options of
         Some bm \<Rightarrow> aget bm (getIndex (width world) x y) \<noteq> Some 1 | None \<Rightarrow> True) \<and>
      getGround world x y \<noteq> Water \<and>
      \<not> cellHasObject world x y) \<and>
   (isCellStandable world x y blocked \<longleftrightarrow>
      inBounds world x y \<and>
      aget blocked (getIndex (width world) x y) \<noteq> Some 1 \<and>
      getGround world x y \<noteq> Water \<and>
      \<not> cellHasObject world x y)"
proof -
  have "isCellStandable world x y blocked \<longleftrightarrow>
      aget blocked (getIndex (width world) x y) \<noteq> Some 1 \<and>
      getGround world x y \<noteq> Water \<and> \<not> cellHasObject world x y"
    by (simp add: isCellStandable_def)
  moreover have "isCellPassable world revealed x y options \<longleftrightarrow>
      inBounds world x y \<and>
      aget revealed (getIndex (width world) x y) \<noteq> Some 0 \<and>
      (case blockedMask options of
         Some bm \<Rightarrow> aget bm (getIndex (width world) x y) \<noteq> Some 1 | None \<Rightarrow> True) \<and>
      getGround world x y \<noteq> Water \<and>
      \<not> cellHasObject world x y"
    by (simp add: isCellPassable_def Let_def split: option.splits)
  ultimately show ?thesis using getGround_not_Water_inBounds by blast
qed

text \<open>
  The claim as written fails: on a one-cell world of Soil whose only cell is unrevealed
  (mask entry 0), not blocked and free of objects, \<open>isCellStandable\<close> holds although
  \<open>isCellPassable\<close> does not.
\<close>

theorem standable_without_reveal_counterexample:
  "isCellStandable \<lparr>width = 1, height = 1, heightmap = [0], ground = [Soil], objects = []\<rparr> 0 0 [0] \<and>
   aget [0::nat] (getIndex 1 0 0) = Some 0 \<and>
   \<not> isCellPassable \<lparr>width = 1, height = 1, heightmap = [0], ground = [Soil], objects = []\<rparr> [0] 0 0
       \<lparr>maxSlope = 1, allowDiagonal = True, blockedMask = Some [0]\<rparr>"
  by (simp add: isCellStandable_def isCellPassable_def getGround_def inBounds_def getIndex_def
      aget_def cellHasObject_def)

section \<open>Properties of the binary heap\<close>




















lemma aget_Cons0: "aget (x # xs) 0 = Some x"
  by (simp add: aget_def)









lemma aget_Nil [simp]: "aget [] i = None"
  by (simp add: aget_def)

lemma MinHeap_pop_empty: "heap h = [] \<Longrightarrow> MinHeap_pop scores h = (- 1, h)"
  by (simp add: MinHeap_pop_def)


section \<open>The octave loops without octaves\<close>

lemma fbmLoop_stop: "octaves \<le> i \<Longrightarrow> fbmLoop n x y octaves l g i st = st"
  by (simp add: fbmLoop.simps)

lemma ridgedLoop_stop: "octaves \<le> i \<Longrightarrow> ridgedLoop n x y octaves l g i st = st"
  by (simp add: ridgedLoop.simps)

text \<open>
  Claim C9. With \<open>octaves \<le> 0\<close> neither loop runs, so \<open>sum\<close> and \<open>normalization\<close> are both 0.
  \<open>ridgedFbm\<close> tests \<open>normalization > 0\<close> and returns 0. \<open>fbm\<close> has no such test: it divides
  0 by 0 and its result is not a finite number.
\<close>

theorem fbm_unguarded:
  "octaves \<le> 0 \<Longrightarrow>
     fbm noise2D x y octaves lacunarity gain = None \<and>
     ridgedFbm noise2D x y octaves lacunarity gain = Some 0"
  by (simp add: fbm_def ridgedFbm_def fbmLoop_stop ridgedLoop_stop js_div_def)

theorem fbm_unguarded_witness:
  "(0::int) \<le> 0 \<and> fbm (\<lambda>x y. 0) 0 0 0 2 (1 / 2) = None \<and> ridgedFbm (\<lambda>x y. 0) 0 0 0 2 (1 / 2) = Some 0"
  using fbm_unguarded [of 0 "\<lambda>x y. 0" 0 0 2 "1 / 2"] by simp

section \<open>Properties of the pathfinder\<close>
















































section \<open>Properties of the world generator\<close>

lemma word32_unit_range: "0 \<le> real (unat (w :: 32 word)) / 4294967296 \<and> real (unat w) / 4294967296 < 1"
proof -
  define n where "n = unat w"
  have "n < 4294967296" unfolding n_def using unsigned_less [of w, where 'a = nat] by simp
  then have "0 \<le> real n / 4294967296 \<and> real n / 4294967296 < 1" by simp
  then show ?thesis unfolding n_def .
qed

lemma mulberry32_body_range: "0 \<le> fst (mulberry32_body t) \<and> fst (mulberry32_body t) < 1"
  unfolding mulberry32_body_def Let_def fst_conv by (rule word32_unit_range)

lemma callRng_range: "0 \<le> fst (callRng g st) \<and> fst (callRng g st) < 1"
proof (cases "aget st g")
  case None then show ?thesis by (simp add: callRng_def)
next
  case (Some t)
  obtain v t' where b: "mulberry32_body t = (v, t')" by (cases "mulberry32_body t")
  with mulberry32_body_range [of t] have "0 \<le> v \<and> v < 1" by simp
  with Some b show ?thesis by (simp add: callRng_def)
qed

lemma isNearSea_iff:
  "isNearSea hm w h x y sea r \<longleftrightarrow>
     (\<exists>dy \<in> {- r..r}. \<exists>dx \<in> {- r..r}. \<not> (dx = 0 \<and> dy = 0) \<and>
        0 \<le> x + dx \<and> x + dx < w \<and> 0 \<le> y + dy \<and> y + dy < h \<and>
        heightAt hm w (x + dx) (y + dy) < sea)"
  unfolding isNearSea_def list_ex_iff heightAt_def Let_def set_upto
  by (intro bex_cong refl) auto

lemma isNearSea_nearWater:
  "isNearSea hm w h x y sea 2 \<longleftrightarrow> nearWater hm w h x y sea"
proof
  assume "isNearSea hm w h x y sea 2"
  then obtain dy dx where d: "dy \<in> {- 2..2}" "dx \<in> {- 2..2}" "\<not> (dx = 0 \<and> dy = 0)"
    "0 \<le> x + dx" "x + dx < w" "0 \<le> y + dy" "y + dy < h"
    "heightAt hm w (x + dx) (y + dy) < sea"
    unfolding isNearSea_iff by blast
  have "x + dx \<in> {x - 2..x + 2}" "y + dy \<in> {y - 2..y + 2}" using d(1,2) by auto
  moreover have "(x + dx, y + dy) \<noteq> (x, y)" using d(3) by auto
  ultimately show "nearWater hm w h x y sea"
    unfolding nearWater_def using d(4-8) by blast
next
  assume "nearWater hm w h x y sea"
  then obtain nx ny where n: "nx \<in> {x - 2..x + 2}" "ny \<in> {y - 2..y + 2}" "(nx, ny) \<noteq> (x, y)"
    "0 \<le> nx" "nx < w" "0 \<le> ny" "ny < h" "heightAt hm w nx ny < sea"
    unfolding nearWater_def by blast
  have "ny - y \<in> {- 2..2}" "nx - x \<in> {- 2..2}" using n(1,2) by auto
  moreover have "\<not> (nx - x = 0 \<and> ny - y = 0)" using n(3) by auto
  moreover have "0 \<le> x + (nx - x)" "x + (nx - x) < w" "0 \<le> y + (ny - y)" "y + (ny - y) < h"
    "heightAt hm w (x + (nx - x)) (y + (ny - y)) < sea" using n(4-8) by simp_all
  ultimately show "isNearSea hm w h x y sea 2"
    unfolding isNearSea_iff by blast
qed

lemma groundCell_result:
  "\<exists>roll store'. 0 \<le> roll \<and> roll < 1 \<and>
     groundCell config hm rng y x (grd, store) =
       (aset grd (getIndex (cfg_width config) x y) (classify config hm x y roll), store')"
proof -
  let ?h = "heightAt hm (cfg_width config) x y"
  have nw: "isNearSea hm (cfg_width config) (cfg_height config) x y (seaLevel config) 2
              = nearWater hm (cfg_width config) (cfg_height config) x y (seaLevel config)"
    by (rule isNearSea_nearWater)
  obtain roll store' where r: "callRng rng store = (roll, store')" by (cases "callRng rng store")
  with callRng_range [of rng store] have rr: "0 \<le> roll \<and> roll < 1" by simp
  have "groundCell config hm rng y x (grd, store) =
       (aset grd (getIndex (cfg_width config) x y) (classify config hm x y roll),
        if \<not> ?h < seaLevel config \<and>
           \<not> (?h > mountainHeight config \<or>
              getSlopeAt hm (cfg_width config) (cfg_height config) x y > slopeRock config) \<and>
           nearWater hm (cfg_width config) (cfg_height config) x y (seaLevel config) \<and>
           ?h < seaLevel config + sandHeight config
        then store' else store)"
    by (simp add: groundCell_def classify_def Let_def nw r heightAt_def)
  with rr show ?thesis by blast
qed

lemma grid_index:
  assumes "0 \<le> x" "x < w" "0 \<le> y" "y < h"
  shows "0 \<le> getIndex w x y" and "getIndex w x y < int (nat (w * h))"
    and "getIndex w x y mod w = x" and "getIndex w x y div w = y"
proof -
  show "0 \<le> getIndex w x y" using assms by (simp add: getIndex_def)
  have "y + 1 \<le> h" using assms by simp
  then have "(y + 1) * w \<le> h * w" using assms by (intro mult_right_mono) auto
  then have "x + y * w < w * h" using assms by (simp add: algebra_simps)
  then show "getIndex w x y < int (nat (w * h))" by (simp add: getIndex_def)
  show "getIndex w x y mod w = x" using assms by (simp add: getIndex_def)
  show "getIndex w x y div w = y" using assms by (simp add: getIndex_def)
qed

lemma scan_product:
  "scan w h body st = fold (\<lambda>c. body (fst c) (snd c)) (List.product [0..h - 1] [0..w - 1]) st"
  unfolding scan_def fold_nested_product by (simp add: case_prod_beta')

lemma grid_cells_distinct:
  "distinct (map (\<lambda>c. getIndex w (snd c) (fst c)) (List.product [0..h - 1] [0..w - 1]))"
proof -
  have "inj_on (\<lambda>c. getIndex w (snd c) (fst c)) (set (List.product [0..h - 1] [0..w - 1]))"
  proof (rule inj_onI)
    fix a b
    assume a: "a \<in> set (List.product [0..h - 1] [0..w - 1])"
      and b: "b \<in> set (List.product [0..h - 1] [0..w - 1])"
      and e: "getIndex w (snd a) (fst a) = getIndex w (snd b) (fst b)"
    from a have ra: "0 \<le> snd a" "snd a < w" "0 \<le> fst a" "fst a < h" by auto
    from b have rb: "0 \<le> snd b" "snd b < w" "0 \<le> fst b" "fst b < h" by auto
    from grid_index(3) [OF ra] grid_index(3) [OF rb] e have "snd a = snd b" by simp
    moreover from grid_index(4) [OF ra] grid_index(4) [OF rb] e have "fst a = fst b" by simp
    ultimately show "a = b" by (simp add: prod_eq_iff)
  qed
  moreover have "distinct (List.product [0..h - 1] [0..w - 1])"
    by (simp add: distinct_product)
  ultimately show ?thesis by (simp add: distinct_map)
qed

lemma groundFold_other:
  "(\<forall>c \<in> set cs. getIndex (cfg_width config) (snd c) (fst c) \<noteq> i) \<Longrightarrow>
   aget (fst (fold (\<lambda>c. groundCell config hm rng (fst c) (snd c)) cs st)) i = aget (fst st) i \<and>
   length (fst (fold (\<lambda>c. groundCell config hm rng (fst c) (snd c)) cs st)) = length (fst st)"
proof (induction cs arbitrary: st)
  case Nil show ?case by simp
next
  case (Cons c cs)
  obtain grd store where st: "st = (grd, store)" by (cases st)
  from groundCell_result [of config hm rng "fst c" "snd c" grd store]
  obtain roll store' where g: "groundCell config hm rng (fst c) (snd c) (grd, store) =
       (aset grd (getIndex (cfg_width config) (snd c) (fst c)) (classify config hm (snd c) (fst c) roll), store')"
    by blast
  from Cons.prems have "getIndex (cfg_width config) (snd c) (fst c) \<noteq> i" by simp
  then have "aget (fst (groundCell config hm rng (fst c) (snd c) st)) i = aget (fst st) i"
    "length (fst (groundCell config hm rng (fst c) (snd c) st)) = length (fst st)"
    by (simp_all add: st g aget_aset)
  with Cons.IH [of "groundCell config hm rng (fst c) (snd c) st"] Cons.prems show ?case by simp
qed

lemma callRng_sim:
  assumes "inStep g g' st st'"
  shows "fst (callRng g st) = fst (callRng g' st') \<and>
         inStep g g' (snd (callRng g st)) (snd (callRng g' st'))"
proof -
  from assms obtain t where t: "aget st g = Some t" "aget st' g' = Some t"
    unfolding inStep_def by blast
  obtain v t' where b: "mulberry32_body t = (v, t')" by (cases "mulberry32_body t")
  show ?thesis
    using aget_aset_same [OF t(1), of t'] aget_aset_same [OF t(2), of t']
    by (simp add: callRng_def t b inStep_def)
qed

lemma groundCell_sim:
  assumes "inStep g g' st st'"
  shows "fst (groundCell config hm g y x (grd, st)) = fst (groundCell config hm g' y x (grd, st')) \<and>
         inStep g g' (snd (groundCell config hm g y x (grd, st)))
                     (snd (groundCell config hm g' y x (grd, st')))"
proof -
  obtain r1 s1 where c1: "callRng g st = (r1, s1)" by (cases "callRng g st")
  obtain r2 s2 where c2: "callRng g' st' = (r2, s2)" by (cases "callRng g' st'")
  from callRng_sim [OF assms] have "r1 = r2" "inStep g g' s1 s2" by (simp_all add: c1 c2)
  with assms show ?thesis by (simp add: groundCell_def Let_def c1 c2)
qed

lemma objectCell_sim:
  assumes "inStep g g' st st'"
  shows "fst (objectCell config hm grd noise g y x (objs, st))
           = fst (objectCell config hm grd noise g' y x (objs, st')) \<and>
         inStep g g' (snd (objectCell config hm grd noise g y x (objs, st)))
                     (snd (objectCell config hm grd noise g' y x (objs, st')))"
proof -
  obtain r1 s1 where c1: "callRng g st = (r1, s1)" by (cases "callRng g st")
  obtain r2 s2 where c2: "callRng g' st' = (r2, s2)" by (cases "callRng g' st'")
  from callRng_sim [OF assms] have e1: "r1 = r2" and i1: "inStep g g' s1 s2" by (simp_all add: c1 c2)
  obtain r3 s3 where c3: "callRng g s1 = (r3, s3)" by (cases "callRng g s1")
  obtain r4 s4 where c4: "callRng g' s2 = (r4, s4)" by (cases "callRng g' s2")
  from callRng_sim [OF i1] have e2: "r3 = r4" and i2: "inStep g g' s3 s4" by (simp_all add: c3 c4)
  show ?thesis
    using assms e1 i1 e2 i2
    by (simp add: objectCell_def Let_def c1 c2 c3 c4 split: option.splits)
qed

lemma fold_sim:
  assumes step: "\<And>c v s s'. R s s' \<Longrightarrow>
      fst (f c (v, s)) = fst (f' c (v, s')) \<and> R (snd (f c (v, s))) (snd (f' c (v, s')))"
  shows "R s s' \<Longrightarrow> fst (fold f cs (v, s)) = fst (fold f' cs (v, s')) \<and>
      R (snd (fold f cs (v, s))) (snd (fold f' cs (v, s')))"
proof (induction cs arbitrary: v s s')
  case Nil then show ?case by simp
next
  case (Cons c cs)
  obtain v1 s1 where a: "f c (v, s) = (v1, s1)" by (cases "f c (v, s)")
  obtain v2 s2 where b: "f' c (v, s') = (v2, s2)" by (cases "f' c (v, s')")
  from step [OF Cons.prems, of c v] have e: "v1 = v2" and r: "R s1 s2"
    by (simp_all add: a b)
  from Cons.IH [OF r, of v1] e show ?case by (simp add: a b)
qed

lemma scan_sim:
  assumes step: "\<And>y x v s s'. R s s' \<Longrightarrow>
      fst (body y x (v, s)) = fst (body' y x (v, s')) \<and>
      R (snd (body y x (v, s))) (snd (body' y x (v, s')))"
    and "R s s'"
  shows "fst (scan w h body (v, s)) = fst (scan w h body' (v, s')) \<and>
      R (snd (scan w h body (v, s))) (snd (scan w h body' (v, s')))"
  unfolding scan_product
  by (rule fold_sim [where R = R]) (simp_all add: assms)

lemma phases_sim:
  assumes "inStep g g' st st'"
  shows "phases config n1 n2 g st = phases config n1 n2 g' st'"
proof -
  let ?n = "nat (cfg_width config * cfg_height config)"
  let ?hm = "scan (cfg_width config) (cfg_height config) (heightCell config n1) (replicate ?n 0)"
  let ?gs = "scan (cfg_width config) (cfg_height config) (groundCell config ?hm g) (replicate ?n Water, st)"
  let ?gs' = "scan (cfg_width config) (cfg_height config) (groundCell config ?hm g') (replicate ?n Water, st')"
  have "fst ?gs = fst ?gs' \<and> inStep g g' (snd ?gs) (snd ?gs')"
    by (rule scan_sim [where R = "inStep g g'"]) (simp_all add: groundCell_sim assms)
  then have e: "fst ?gs = fst ?gs'" and i: "inStep g g' (snd ?gs) (snd ?gs')" by simp_all
  have "fst (scan (cfg_width config) (cfg_height config)
               (objectCell config ?hm (fst ?gs') n2 g) ([], snd ?gs))
      = fst (scan (cfg_width config) (cfg_height config)
               (objectCell config ?hm (fst ?gs') n2 g') ([], snd ?gs')) \<and>
        inStep g g'
          (snd (scan (cfg_width config) (cfg_height config)
               (objectCell config ?hm (fst ?gs') n2 g) ([], snd ?gs)))
          (snd (scan (cfg_width config) (cfg_height config)
               (objectCell config ?hm (fst ?gs') n2 g') ([], snd ?gs')))"
    by (rule scan_sim [where R = "inStep g g'"]) (simp_all add: objectCell_sim i)
  then show ?thesis unfolding phases_def Let_def e by simp
qed

lemma mulberry32_fresh:
  "aget (snd (mulberry32 sd st)) (fst (mulberry32 sd st)) = Some (sd mod 4294967296)"
  by (simp add: mulberry32_def aget_def)

lemma createNoise2D_at:
  "aget st g = Some t \<Longrightarrow> fst (createNoise2D noiseOf g st) = fst (noiseOf t)"
  by (simp add: createNoise2D_def split: prod.splits)

lemma generateWorld_phases:
  assumes "createsArray hostCreates 4 (cfg_width config * cfg_height config)"
    and "createsArray hostCreates 1 (cfg_width config * cfg_height config)"
  shows "\<exists>g s. aget s g = Some ((seed config + 9001) mod 4294967296) \<and>
     fst (generateWorld noiseOf hostCreates config st) =
       Inr (phases config (fst (noiseOf (seed config mod 4294967296)))
              (fst (noiseOf ((seed config + 1337) mod 4294967296))) g s)"
proof -
  define st1 where "st1 = snd (mulberry32 (seed config) st)"
  define g1 where "g1 = fst (mulberry32 (seed config) st)"
  define st2 where "st2 = snd (createNoise2D noiseOf g1 st1)"
  define st3 where "st3 = snd (mulberry32 (seed config + 1337) st2)"
  define g2 where "g2 = fst (mulberry32 (seed config + 1337) st2)"
  define st4 where "st4 = snd (createNoise2D noiseOf g2 st3)"
  define st5 where "st5 = snd (mulberry32 (seed config + 9001) st4)"
  define g3 where "g3 = fst (mulberry32 (seed config + 9001) st4)"
  have n1: "fst (createNoise2D noiseOf g1 st1) = fst (noiseOf (seed config mod 4294967296))"
    unfolding g1_def st1_def by (rule createNoise2D_at) (rule mulberry32_fresh)
  have n2: "fst (createNoise2D noiseOf g2 st3) = fst (noiseOf ((seed config + 1337) mod 4294967296))"
    unfolding g2_def st3_def by (rule createNoise2D_at) (rule mulberry32_fresh)
  have g: "aget st5 g3 = Some ((seed config + 9001) mod 4294967296)"
    unfolding g3_def st5_def by (rule mulberry32_fresh)
  have "fst (generateWorld noiseOf hostCreates config st) =
       Inr (phases config (fst (createNoise2D noiseOf g1 st1)) (fst (createNoise2D noiseOf g2 st3)) g3 st5)"
    using assms unfolding generateWorld_def phases_def Let_def
    by (simp add: case_prod_beta st1_def g1_def st2_def st3_def g2_def st4_def st5_def g3_def)
  with g show ?thesis unfolding n1 n2 by blast
qed

text \<open>
  Claim C4. \<open>generateWorld\<close> creates its three generators afresh from the seed, so the world
  it returns (heightmap, ground and objects in their order) is the same from any two stores
  of generator variables, and in particular in a second call that follows a first one.
\<close>

theorem generateWorld_deterministic:
  "fst (generateWorld noiseOf hostCreates config st1)
     = fst (generateWorld noiseOf hostCreates config st2) \<and>
   fst (generateWorld noiseOf hostCreates config (snd (generateWorld noiseOf hostCreates config st1)))
     = fst (generateWorld noiseOf hostCreates config st1)"
proof -
  have det: "fst (generateWorld noiseOf hostCreates config s)
      = fst (generateWorld noiseOf hostCreates config s')" for s s'
  proof (cases "createsArray hostCreates 4 (cfg_width config * cfg_height config) \<and>
      createsArray hostCreates 1 (cfg_width config * cfg_height config)")
    case False
    then show ?thesis by (auto simp: generateWorld_def)
  next
    case True
    then have c: "createsArray hostCreates 4 (cfg_width config * cfg_height config)"
      "createsArray hostCreates 1 (cfg_width config * cfg_height config)" by simp_all
    from generateWorld_phases [OF c, of noiseOf s] generateWorld_phases [OF c, of noiseOf s']
    obtain g t g' t' where a: "aget t g = Some ((seed config + 9001) mod 4294967296)"
      "fst (generateWorld noiseOf hostCreates config s) =
         Inr (phases config (fst (noiseOf (seed config mod 4294967296)))
              (fst (noiseOf ((seed config + 1337) mod 4294967296))) g t)"
      and b: "aget t' g' = Some ((seed config + 9001) mod 4294967296)"
      "fst (generateWorld noiseOf hostCreates config s') =
         Inr (phases config (fst (noiseOf (seed config mod 4294967296)))
              (fst (noiseOf ((seed config + 1337) mod 4294967296))) g' t')"
      by blast
    from a(1) b(1) have "inStep g g' t t'" unfolding inStep_def by blast
    from phases_sim [OF this] a(2) b(2) show ?thesis by simp
  qed
  show ?thesis
    using det [of st1 st2] det [of "snd (generateWorld noiseOf hostCreates config st1)" st1] by simp
qed
section \<open>The ground scan and the rolls of the generator\<close>

lemma callRng_at:
  assumes "aget st g = Some t"
  shows "callRng g st = (fst (mulberry32_body t), aset st g (snd (mulberry32_body t)))"
    and "aget (aset st g t') g = Some t'"
  using assms aget_aset_same [OF assms, of t']
  by (simp_all add: callRng_def split: prod.splits)

lemma groundCell_at:
  assumes t: "aget store g = Some t"
  shows "\<exists>store'. groundCell config hm g y x (grd, store) =
       (aset grd (getIndex (cfg_width config) x y)
          (classify config hm x y (fst (mulberry32_body t))), store') \<and>
     aget store' g = Some (if needsRoll config hm (y, x) then snd (mulberry32_body t) else t)"
proof -
  have nw: "isNearSea hm (cfg_width config) (cfg_height config) x y (seaLevel config) 2
              = nearWater hm (cfg_width config) (cfg_height config) x y (seaLevel config)"
    by (rule isNearSea_nearWater)
  show ?thesis
  proof (cases "needsRoll config hm (y, x)")
    case True
    then have "groundCell config hm g y x (grd, store) =
       (aset grd (getIndex (cfg_width config) x y)
          (classify config hm x y (fst (mulberry32_body t))),
        aset store g (snd (mulberry32_body t)))"
      by (simp add: groundCell_def classify_def needsRoll_def Let_def nw heightAt_def
          callRng_at(1) [OF t])
    with True callRng_at(2) [OF t] show ?thesis by simp
  next
    case False
    then have "groundCell config hm g y x (grd, store) =
       (aset grd (getIndex (cfg_width config) x y)
          (classify config hm x y (fst (mulberry32_body t))), store)"
      by (auto simp: groundCell_def classify_def needsRoll_def Let_def nw heightAt_def)
    with False t show ?thesis by simp
  qed
qed

lemma groundFold_state:
  "aget store g = Some t \<Longrightarrow>
   aget (snd (fold (\<lambda>c. groundCell config hm g (fst c) (snd c)) cs (grd, store))) g
     = Some (((\<lambda>t. snd (mulberry32_body t)) ^^ length (filter (needsRoll config hm) cs)) t)"
proof (induction cs arbitrary: grd store t)
  case Nil then show ?case by simp
next
  case (Cons c cs)
  from groundCell_at [OF Cons.prems, of config hm "fst c" "snd c" grd]
  obtain store' where g: "groundCell config hm g (fst c) (snd c) (grd, store) =
       (aset grd (getIndex (cfg_width config) (snd c) (fst c))
          (classify config hm (snd c) (fst c) (fst (mulberry32_body t))), store')"
    and s: "aget store' g = Some (if needsRoll config hm c then snd (mulberry32_body t) else t)"
    by auto
  have sw: "((\<lambda>t. snd (mulberry32_body t)) ^^ k) (snd (mulberry32_body t))
      = snd (mulberry32_body (((\<lambda>t. snd (mulberry32_body t)) ^^ k) t))" for k
    using funpow_swap1 [of "\<lambda>t. snd (mulberry32_body t)" k t] by simp
  from Cons.IH [OF s] show ?case
    by (simp add: g sw)
qed

lemma groundFold_at:
  assumes d: "distinct (map (\<lambda>c. getIndex (cfg_width config) (snd c) (fst c)) (pre @ c # post))"
    and r: "0 \<le> getIndex (cfg_width config) (snd c) (fst c)"
      "getIndex (cfg_width config) (snd c) (fst c) < int (length grd)"
    and t: "aget store g = Some t"
  shows "aget (fst (fold (\<lambda>c. groundCell config hm g (fst c) (snd c)) (pre @ c # post) (grd, store)))
           (getIndex (cfg_width config) (snd c) (fst c))
     = Some (classify config hm (snd c) (fst c)
         (fst (mulberry32_body
            (((\<lambda>t. snd (mulberry32_body t)) ^^ length (filter (needsRoll config hm) pre)) t))))"
proof -
  let ?f = "\<lambda>c. groundCell config hm g (fst c) (snd c)"
  let ?i = "getIndex (cfg_width config) (snd c) (fst c)"
  let ?t = "((\<lambda>t. snd (mulberry32_body t)) ^^ length (filter (needsRoll config hm) pre)) t"
  obtain grd1 store1 where s1: "fold ?f pre (grd, store) = (grd1, store1)"
    by (cases "fold ?f pre (grd, store)")
  from d have npre: "\<forall>a \<in> set pre. getIndex (cfg_width config) (snd a) (fst a) \<noteq> ?i"
    and npost: "\<forall>a \<in> set post. getIndex (cfg_width config) (snd a) (fst a) \<noteq> ?i"
    by (auto simp: image_iff)
  from groundFold_other [OF npre, of hm g "(grd, store)"]
  have len1: "length grd1 = length grd" by (simp add: s1)
  from groundFold_state [OF t, of config hm pre grd]
  have t1: "aget store1 g = Some ?t" by (simp add: s1)
  from groundCell_at [OF t1, of config hm "fst c" "snd c" grd1]
  obtain store2 where s2: "?f c (grd1, store1) =
      (aset grd1 ?i (classify config hm (snd c) (fst c) (fst (mulberry32_body ?t))), store2)"
    by auto
  have "aget (fst (?f c (grd1, store1))) ?i
      = Some (classify config hm (snd c) (fst c) (fst (mulberry32_body ?t)))"
    using r len1 by (simp add: s2 aget_aset)
  with groundFold_other [OF npost, of hm g "?f c (grd1, store1)"]
  show ?thesis by (simp add: s1)
qed

lemma product_append:
  "List.product (xs @ ys) zs = List.product xs zs @ List.product ys zs"
  by (induction xs) simp_all

lemma scan_cells:
  assumes "0 \<le> x" "x < w" "0 \<le> y" "y < h"
  shows "\<exists>rest. List.product [0..h - 1] [0..w - 1] = cellsBefore w x y @ (y, x) # rest"
proof -
  have ys: "[0..h - 1] = [0..y - 1] @ y # [y + 1..h - 1]"
    using assms by (intro upto_split3) simp_all
  have xs: "[0..w - 1] = [0..x - 1] @ x # [x + 1..w - 1]"
    using assms by (intro upto_split3) simp_all
  have "List.product [0..h - 1] [0..w - 1]
      = List.product [0..y - 1] [0..w - 1] @ map (Pair y) [0..w - 1]
        @ List.product [y + 1..h - 1] [0..w - 1]"
    by (subst ys) (simp add: product_append)
  also have "map (Pair y) [0..w - 1]
      = map (Pair y) [0..x - 1] @ (y, x) # map (Pair y) [x + 1..w - 1]"
    by (subst xs) simp
  finally show ?thesis by (simp add: cellsBefore_def)
qed

lemma nthRoll_range: "0 \<le> nthRoll sd k \<and> nthRoll sd k < 1"
  unfolding nthRoll_def by (rule mulberry32_body_range)

lemma phases_ground_at:
  assumes c: "0 \<le> x" "x < cfg_width config" "0 \<le> y" "y < cfg_height config"
    and t: "aget s g = Some ((seed config + 9001) mod 4294967296)"
  shows "aget (ground (phases config n1 n2 g s)) (getIndex (cfg_width config) x y)
     = Some (classify config (heightmap (phases config n1 n2 g s)) x y
               (rollAt config (heightmap (phases config n1 n2 g s)) x y))"
proof -
  let ?n = "nat (cfg_width config * cfg_height config)"
  let ?hm = "scan (cfg_width config) (cfg_height config) (heightCell config n1) (replicate ?n 0)"
  have hm: "heightmap (phases config n1 n2 g s) = ?hm" by (simp add: phases_def Let_def)
  have gr: "ground (phases config n1 n2 g s)
      = fst (scan (cfg_width config) (cfg_height config) (groundCell config ?hm g)
               (replicate ?n Water, s))"
    by (simp add: phases_def Let_def)
  from scan_cells [OF c] obtain rest
    where cells: "List.product [0..cfg_height config - 1] [0..cfg_width config - 1]
        = cellsBefore (cfg_width config) x y @ (y, x) # rest" by blast
  have d: "distinct (map (\<lambda>c. getIndex (cfg_width config) (snd c) (fst c))
      (cellsBefore (cfg_width config) x y @ (y, x) # rest))"
    using grid_cells_distinct [of "cfg_width config" "cfg_height config"] unfolding cells .
  from grid_index(1,2) [OF c]
  have r: "0 \<le> getIndex (cfg_width config) (snd (y, x)) (fst (y, x))"
    "getIndex (cfg_width config) (snd (y, x)) (fst (y, x)) < int (length (replicate ?n Water))"
    by simp_all
  from groundFold_at [OF d r t, of ?hm]
  show ?thesis
    unfolding hm gr scan_product cells rollAt_def nthRoll_def by simp
qed

text \<open>
  Claim C5. When the two typed arrays can be created, \<open>generateWorld\<close> returns a world in
  which the ground of every cell of the grid is the class that the priority rule gives from
  the final heightmap: Water below the sea level; otherwise Rock above the mountain height
  or on a slope above \<open>slopeRock\<close>; otherwise Sand when another cell of the grid within
  Chebyshev distance 2 lies below the sea level, the height is below \<open>seaLevel + sandHeight\<close>
  and the roll is below \<open>sandChance\<close>; otherwise Soil. The roll of a cell is the value in
  \<open>[0, 1)\<close> that the generator \<open>mulberry32(seed + 9001)\<close> returns at its next call after one
  call for each earlier cell of the scan that came to its roll.
\<close>

theorem generateWorld_ground_priority:
  assumes "0 \<le> x" "x < cfg_width config" "0 \<le> y" "y < cfg_height config"
    and "createsArray hostCreates 4 (cfg_width config * cfg_height config)"
    and "createsArray hostCreates 1 (cfg_width config * cfg_height config)"
  shows "\<exists>world. fst (generateWorld noiseOf hostCreates config st) = Inr world \<and>
           0 \<le> rollAt config (heightmap world) x y \<and> rollAt config (heightmap world) x y < 1 \<and>
           aget (ground world) (getIndex (cfg_width config) x y)
             = Some (classify config (heightmap world) x y (rollAt config (heightmap world) x y))"
proof -
  from generateWorld_phases [OF assms(5,6), of noiseOf st]
  obtain g s where t: "aget s g = Some ((seed config + 9001) mod 4294967296)"
    and w: "fst (generateWorld noiseOf hostCreates config st) =
       Inr (phases config (fst (noiseOf (seed config mod 4294967296)))
              (fst (noiseOf ((seed config + 1337) mod 4294967296))) g s)"
    by blast
  from phases_ground_at [OF assms(1-4) t] w nthRoll_range show ?thesis
    by (simp add: rollAt_def)
qed

lemma generateWorld_heightmap:
  assumes "createsArray hostCreates 4 (cfg_width config * cfg_height config)"
    and "createsArray hostCreates 1 (cfg_width config * cfg_height config)"
    and "fst (generateWorld noiseOf hostCreates config st) = Inr world"
  shows "heightmap world = scan (cfg_width config) (cfg_height config)
           (heightCell config (fst (noiseOf (seed config mod 4294967296))))
           (replicate (nat (cfg_width config * cfg_height config)) 0)"
  using generateWorld_phases [OF assms(1,2), of noiseOf st] assms(3)
  by (auto simp: phases_def Let_def)

lemma fbm_sign:
  "fbm (\<lambda>a b. if a = 0 then - 1 else 1) x y 5 2 (1 / 2) = Some (if x = 0 then 0 else 1)"
  by (simp add: fbm_def fbmLoop.simps js_div_def)

lemma coast_heightmap:
  "scan 2 1 (heightCell c (\<lambda>a b. if a = 0 then - 1 else 1)) (replicate 2 0) = [0, 1]"
  if "cfg_width c = 2"
proof -
  have u: "[0..1::int] = [0, 1]" "[0..0::int] = [0]" by (simp_all add: upto.simps)
  show ?thesis
    by (simp add: scan_def u heightCell_def fbm_sign getIndex_def aset_def that numeral_2_eq_2)
qed

theorem generateWorld_ground_priority_witness:
  "createsArray (\<lambda>n. True) 4 (2 * 1) \<and> createsArray (\<lambda>n. True) 1 (2 * 1) \<and>
   (\<exists>world. fst (generateWorld (\<lambda>t. (\<lambda>a b. if a = 0 then - 1 else 1, t)) (\<lambda>n. True)
       \<lparr>cfg_width = 2, cfg_height = 1, seed = 0, seaLevel = 3 / 10, mountainHeight = 2,
         slopeRock = 2, sandHeight = 1, sandChance = 1, treeSlopeMax = 1 / 10,
         forestScale = 1 / 10, forestThreshold = 1 / 2, treeChance = 1 / 2, rockSlopeMax = 0,
         rockChance = 1 / 2\<rparr> []) = Inr world \<and>
      heightmap world = [0, 1] \<and>
      aget (ground world) 0 = Some Water \<and> aget (ground world) 1 = Some Sand)"
proof -
  let ?c = "\<lparr>cfg_width = 2, cfg_height = 1, seed = 0, seaLevel = 3 / 10, mountainHeight = 2,
         slopeRock = 2, sandHeight = 1, sandChance = 1, treeSlopeMax = 1 / 10,
         forestScale = 1 / 10, forestThreshold = 1 / 2, treeChance = 1 / 2, rockSlopeMax = 0,
         rockChance = 1 / 2\<rparr>"
  let ?n = "\<lambda>t::int. (\<lambda>a b::real. if a = 0 then - 1 else 1 :: real, t)"
  have a: "createsArray (\<lambda>n. True) 4 (cfg_width ?c * cfg_height ?c)"
    "createsArray (\<lambda>n. True) 1 (cfg_width ?c * cfg_height ?c)"
    by (simp_all add: createsArray_def)
  have c1: "(0::int) \<le> 1" "(1::int) < cfg_width ?c" "(0::int) \<le> 0" "(0::int) < cfg_height ?c"
    and c0: "(0::int) < cfg_width ?c" by simp_all
  from generateWorld_ground_priority [OF c1 a, of ?n "[]"]
  obtain world where w: "fst (generateWorld ?n (\<lambda>n. True) ?c []) = Inr world"
    and r: "rollAt ?c (heightmap world) 1 0 < 1"
    and s: "aget (ground world) (getIndex (cfg_width ?c) 1 0)
        = Some (classify ?c (heightmap world) 1 0 (rollAt ?c (heightmap world) 1 0))"
    by blast
  from generateWorld_ground_priority [OF c1(3) c0 c1(3,4) a, of ?n "[]"] w
  have v: "aget (ground world) (getIndex (cfg_width ?c) 0 0)
        = Some (classify ?c (heightmap world) 0 0 (rollAt ?c (heightmap world) 0 0))"
    by auto
  have hm: "heightmap world = [0, 1]"
    using generateWorld_heightmap [OF a w] coast_heightmap [of ?c] by simp
  have nw: "nearWater [0, 1] 2 1 1 0 (3 / 10)"
    unfolding nearWater_def
    by (rule bexI [of _ 0], rule bexI [of _ 0]) (simp_all add: heightAt_def getIndex_def aget_def)
  have sand: "classify ?c [0, 1] 1 0 (rollAt ?c [0, 1] 1 0) = Sand"
    using r nw unfolding hm
    by (simp add: classify_def heightAt_def getSlopeAt_def slopeOffsets_def getIndex_def aget_def)
  have water: "classify ?c [0, 1] 0 0 (rollAt ?c [0, 1] 0 0) = Water"
    by (simp add: classify_def heightAt_def getIndex_def aget_def)
  from w hm s v sand water a show ?thesis by (simp add: getIndex_def)
qed

section \<open>Optimality of the search\<close>





























lemma SQRT2_bounds: "1 < SQRT2" "SQRT2 < 2"
proof -
  have "(1::real)\<^sup>2 < (sqrt 2)\<^sup>2" by simp
  then have "1 < sqrt 2" by (rule power2_less_imp_less) simp
  then show "1 < SQRT2" by (simp add: SQRT2_def)
  have "(sqrt 2)\<^sup>2 < (2::real)\<^sup>2" by simp
  then have "sqrt 2 < 2" by (rule power2_less_imp_less) simp
  then show "SQRT2 < 2" by (simp add: SQRT2_def)
qed







section \<open>Walks and the heuristic along them\<close>


























lemma stepCost_le: "stepCost w p n \<le> SQRT2"
  using SQRT2_bounds by (simp add: stepCost_def)







































end
